theory Spec2Isabelle
  imports Complex_Main
begin

section \<open>Values\<close>

text \<open>
  The image pool is documented as an array of image URLs (strings); a card layer holds
  such a string or \<^verbatim>\<open>null\<close>, and an array read out of range gives
  \<^verbatim>\<open>undefined\<close>. On these values \<^verbatim>\<open>===\<close> and
  \<^verbatim>\<open>Set.has\<close> are equality of values, which is HOL's \<open>=\<close>.
\<close>

datatype jsval = Undefined | Null | Str string

text \<open>JavaScript truthiness: \<^verbatim>\<open>undefined\<close>, \<^verbatim>\<open>null\<close>
  and the empty string are falsy.\<close>

fun truthy :: "jsval \<Rightarrow> bool" where
  "truthy Undefined = False"
| "truthy Null = False"
| "truthy (Str s) = (s \<noteq> [])"

text \<open>\<^verbatim>\<open>list[idx]\<close>: \<^verbatim>\<open>undefined\<close> out of range.\<close>

definition js_index :: "jsval list \<Rightarrow> int \<Rightarrow> jsval" where
  "js_index list idx = (if 0 \<le> idx \<and> idx < int (length list) then list ! nat idx else Undefined)"

section \<open>The random source\<close>

text \<open>
  \<^verbatim>\<open>Math.random()\<close> is the only ambient input, and the code does one thing with
  each result \<open>r\<close>: it computes \<^verbatim>\<open>Math.floor(r * n)\<close> for one length \<open>n\<close>. The
  product is a double product, rounded before the floor is taken, so the index is not the
  floor of the exact product (0.6666666666666666 and 3 give index 2). A result of
  \<^verbatim>\<open>Math.random()\<close> is therefore taken as what the code can see of it: the
  function that sends \<open>n\<close> to the value of \<^verbatim>\<open>Math.floor(r * n)\<close>. The
  successive results are a sequence of such draws, read through a cursor that every
  function returns advanced by the draws it made.

  \<open>valid_draw\<close> is the contract of \<^verbatim>\<open>Math.random()\<close>: for a double in [0, 1) the
  index lies in \<open>0 .. n - 1\<close>. Nothing in the functions below relies on it, and an
  index outside reads the \<^verbatim>\<open>undefined\<close> that JavaScript reads. \<open>fair\<close> says that
  every index keeps coming up, which a random source does with probability one; a sequence
  that is not fair can keep the loop of \<^verbatim>\<open>pickRandomExcluding\<close> going forever.
\<close>

type_synonym draw = "nat \<Rightarrow> int"

type_synonym rng = "nat \<Rightarrow> draw"

definition valid_draw :: "draw \<Rightarrow> bool" where
  "valid_draw d = (\<forall>n. 0 < n \<longrightarrow> 0 \<le> d n \<and> d n < int n)"

definition valid_rng :: "rng \<Rightarrow> bool" where
  "valid_rng rng = (\<forall>k. valid_draw (rng k))"

definition fair :: "rng \<Rightarrow> nat \<Rightarrow> bool" where
  "fair rng n = (\<forall>k. \<forall>i<n. \<exists>j. rng (k + j) n = int i)"

section \<open>Selection\<close>

text \<open>\<^verbatim>\<open>pickRandomExcluding\<close>: the \<^verbatim>\<open>while\<close> loop may run forever, so
  not returning is the value \<open>None\<close>.\<close>

partial_function (option) pickRandomExcluding_loop ::
  "rng \<Rightarrow> nat \<Rightarrow> jsval list \<Rightarrow> jsval \<Rightarrow> jsval \<Rightarrow> (jsval \<times> nat) option" where
  "pickRandomExcluding_loop rng k list exclude candidate =
     (if candidate = exclude
      then pickRandomExcluding_loop rng (Suc k) list exclude
             (js_index list (rng k (length list)))
      else Some (candidate, k))"

declare pickRandomExcluding_loop.simps [code]

definition pickRandomExcluding :: "rng \<Rightarrow> nat \<Rightarrow> jsval list \<Rightarrow> jsval \<Rightarrow> (jsval \<times> nat) option" where
  "pickRandomExcluding rng k list exclude =
     (if list = [] then Some (Null, k)
      else if length list = 1 then Some (list ! 0, k)
      else pickRandomExcluding_loop rng k list exclude exclude)"

definition pickRandomNotIn :: "rng \<Rightarrow> nat \<Rightarrow> jsval list \<Rightarrow> jsval set \<Rightarrow> jsval \<times> nat" where
  "pickRandomNotIn rng k list excludeSet =
     (if list = [] then (Null, k)
      else let candidates = filter (\<lambda>x. x \<notin> excludeSet) list in
        if candidates = [] then (Null, k)
        else (js_index candidates (rng k (length candidates)), Suc k))"

text \<open>The selection of the tick callback (the three assignments to \<^verbatim>\<open>newImg\<close>):
  an image not visible anywhere; failing that, one different from the target card's; failing
  that, the current one.\<close>

definition selectNext :: "rng \<Rightarrow> nat \<Rightarrow> jsval list \<Rightarrow> jsval set \<Rightarrow> jsval \<Rightarrow> (jsval \<times> nat) option" where
  "selectNext rng k images visibleSet currentVisible =
     (case pickRandomNotIn rng k images visibleSet of
        (newImg, k1) \<Rightarrow>
          if truthy newImg then Some (newImg, k1)
          else (case pickRandomExcluding rng k1 images currentVisible of
                  None \<Rightarrow> None
                | Some (newImg2, k2) \<Rightarrow>
                    Some (if truthy newImg2 then newImg2 else currentVisible, k2)))"

section \<open>Cards and the tick\<close>

record card =
  a :: jsval
  b :: jsval
  showA :: bool

definition visible :: "card \<Rightarrow> jsval" where
  "visible c = (if showA c then a c else b c)"

text \<open>\<^verbatim>\<open>prev[target]\<close>, \<open>None\<close> for \<^verbatim>\<open>undefined\<close>.\<close>

definition card_at :: "card list \<Rightarrow> int \<Rightarrow> card option" where
  "card_at prev target = (if 0 \<le> target \<and> target < int (length prev) then Some (prev ! nat target) else None)"

definition visibleSet_of :: "card list \<Rightarrow> jsval set" where
  "visibleSet_of prev = set (filter truthy (map visible prev))"

definition flip_card :: "card \<Rightarrow> jsval \<Rightarrow> card" where
  "flip_card currentCard newImg =
     (if showA currentCard then currentCard\<lparr>b := newImg, showA := False\<rparr>
      else currentCard\<lparr>a := newImg, showA := True\<rparr>)"

text \<open>The updater passed to \<^verbatim>\<open>setCards\<close> by the interval callback.\<close>

definition tick_callback :: "rng \<Rightarrow> nat \<Rightarrow> jsval list \<Rightarrow> card list \<Rightarrow> (card list \<times> nat) option" where
  "tick_callback rng k images prev =
     (let target = rng k 3;
          visibleSet = visibleSet_of prev
      in case card_at prev target of
           None \<Rightarrow> Some (prev, Suc k)
         | Some currentCard \<Rightarrow>
             (case selectNext rng (Suc k) images visibleSet (visible currentCard) of
                None \<Rightarrow> None
              | Some (newImg, k') \<Rightarrow>
                  Some (prev[nat target := flip_card currentCard newImg], k')))"

text \<open>The effect that sets the loop up: with an empty pool it returns before creating a
  timer, so there is no callback to fire.\<close>

definition rotation_effect ::
  "jsval list \<Rightarrow> (rng \<Rightarrow> nat \<Rightarrow> card list \<Rightarrow> (card list \<times> nat) option) option" where
  "rotation_effect images =
     (if images = [] then None else Some (\<lambda>rng k prev. tick_callback rng k images prev))"

text \<open>One scheduling period: the timer the effect installed, if any, fires once.\<close>

definition tick :: "rng \<Rightarrow> nat \<Rightarrow> jsval list \<Rightarrow> card list \<Rightarrow> (card list \<times> nat) option" where
  "tick rng k images cards =
     (case rotation_effect images of
        None \<Rightarrow> Some (cards, k)
      | Some callback \<Rightarrow> callback rng k cards)"

fun ticks :: "nat \<Rightarrow> rng \<Rightarrow> nat \<Rightarrow> jsval list \<Rightarrow> card list \<Rightarrow> (card list \<times> nat) option" where
  "ticks 0 rng k images cards = Some (cards, k)"
| "ticks (Suc n) rng k images cards =
     (case tick rng k images cards of
        None \<Rightarrow> None
      | Some (cards', k') \<Rightarrow> ticks n rng k' images cards')"

text \<open>The visible images of the slots, empty ones left out, hold no image twice.\<close>

definition no_duplicate :: "card list \<Rightarrow> bool" where
  "no_duplicate cards = distinct (filter truthy (map visible cards))"

section \<open>Configuration loading\<close>

text \<open>
  A JavaScript number: a double is \<^verbatim>\<open>NaN\<close>, an infinity or a finite value, and
  the finite values are rationals. Only the classification and the order matter to the
  loader.
\<close>

datatype jsnum = NaN | PosInfinity | NegInfinity | Finite rat

text \<open>\<^verbatim>\<open>Number.isFinite(x)\<close> and \<^verbatim>\<open>x > 0\<close>\<close>

fun isFinite :: "jsnum \<Rightarrow> bool" where
  "isFinite (Finite q) = True"
| "isFinite x = False"

fun gt0 :: "jsnum \<Rightarrow> bool" where
  "gt0 (Finite q) = (0 < q)"
| "gt0 PosInfinity = True"
| "gt0 x = False"

text \<open>
  What \<^verbatim>\<open>r.json()\<close> decodes. \<open>JObj kvs\<close> is the object whose property
  \<open>key\<close> is \<open>map_of kvs key\<close>, \<open>None\<close> reading as \<^verbatim>\<open>undefined\<close>; none
  of the keys the loader reads is a property of \<^verbatim>\<open>Object.prototype\<close>.
\<close>

datatype json =
  JNull | JBool bool | JNum jsnum | JStr string | JArr "json list" | JObj "(string \<times> json) list"

datatype error = TypeError | LoadError

text \<open>\<^verbatim>\<open>x ?? y\<close>\<close>

definition nullish :: "json option \<Rightarrow> json option \<Rightarrow> json option" where
  "nullish x y = (case x of None \<Rightarrow> y | Some JNull \<Rightarrow> y | Some v \<Rightarrow> Some v)"

text \<open>
  The conversion of a decoded value to a string, as \<^verbatim>\<open>Number(...)\<close> needs it
  for arrays and objects. A decoded value is never callable, so an object with a key
  \<^verbatim>\<open>toString\<close> of its own has no usable conversion method and the conversion
  throws a TypeError; any other object prints as \<^verbatim>\<open>[object Object]\<close>. An array
  joins its elements with commas, \<^verbatim>\<open>null\<close> printing as the empty string. Printing
  a number (\<open>n2s\<close>) and reading a string as a number (\<open>s2n\<close>) are the language's
  own and are parameters.
\<close>

fun toString :: "(jsnum \<Rightarrow> string) \<Rightarrow> json \<Rightarrow> error + string"
  and join :: "(jsnum \<Rightarrow> string) \<Rightarrow> json list \<Rightarrow> error + string" where
  "toString n2s JNull = Inr ''null''"
| "toString n2s (JBool bv) = Inr (if bv then ''true'' else ''false'')"
| "toString n2s (JNum n) = Inr (n2s n)"
| "toString n2s (JStr s) = Inr s"
| "toString n2s (JArr xs) = join n2s xs"
| "toString n2s (JObj kvs) =
     (if ''toString'' \<in> fst ` set kvs then Inl TypeError else Inr ''[object Object]'')"
| "join n2s [] = Inr []"
| "join n2s (x # xs) =
     (case (if x = JNull then Inr [] else toString n2s x) of
        Inl e \<Rightarrow> Inl e
      | Inr s \<Rightarrow>
          if xs = [] then Inr s
          else (case join n2s xs of Inl e \<Rightarrow> Inl e | Inr r \<Rightarrow> Inr (s @ '','' @ r)))"

text \<open>\<^verbatim>\<open>Number(v)\<close>, \<open>None\<close> being \<^verbatim>\<open>undefined\<close>.\<close>

definition Number :: "(string \<Rightarrow> jsnum) \<Rightarrow> (jsnum \<Rightarrow> string) \<Rightarrow> json option \<Rightarrow> error + jsnum" where
  "Number s2n n2s v =
     (case v of
        None \<Rightarrow> Inr NaN
      | Some JNull \<Rightarrow> Inr (Finite 0)
      | Some (JBool bv) \<Rightarrow> Inr (Finite (if bv then 1 else 0))
      | Some (JNum n) \<Rightarrow> Inr n
      | Some (JStr s) \<Rightarrow> Inr (s2n s)
      | Some obj \<Rightarrow> (case toString n2s obj of Inl e \<Rightarrow> Inl e | Inr s \<Rightarrow> Inr (s2n s)))"

record config =
  images :: "json list"
  intervalMs :: jsnum
  fadeMs :: jsnum

text \<open>The callback that receives the decoded data (of the mounted component). The two
  conversions come before the first state setter, so a conversion that throws leaves
  nothing half set.\<close>

definition on_data ::
  "(string \<Rightarrow> jsnum) \<Rightarrow> (jsnum \<Rightarrow> string) \<Rightarrow> jsnum \<Rightarrow> jsnum \<Rightarrow> json \<Rightarrow> error + config" where
  "on_data s2n n2s defaultIntervalMs defaultFadeMs data =
     (case data of
        JArr xs \<Rightarrow> Inr \<lparr>images = xs, intervalMs = defaultIntervalMs, fadeMs = defaultFadeMs\<rparr>
      | JObj kvs \<Rightarrow>
          (let imgs = (case map_of kvs ''images'' of Some (JArr xs) \<Rightarrow> xs | _ \<Rightarrow> []) in
           case Number s2n n2s (nullish (map_of kvs ''INTERVAL_MS'') (map_of kvs ''intervalMs'')) of
             Inl e \<Rightarrow> Inl e
           | Inr interval \<Rightarrow>
               (case Number s2n n2s (nullish (map_of kvs ''FADE_MS'') (map_of kvs ''fadeMs'')) of
                  Inl e \<Rightarrow> Inl e
                | Inr fade \<Rightarrow>
                    Inr \<lparr>images = imgs,
                         intervalMs = (if isFinite interval \<and> gt0 interval then interval
                                       else defaultIntervalMs),
                         fadeMs = (if isFinite fade \<and> gt0 fade then fade else defaultFadeMs)\<rparr>))
      | _ \<Rightarrow> Inr \<lparr>images = [], intervalMs = defaultIntervalMs, fadeMs = defaultFadeMs\<rparr>)"

text \<open>The \<^verbatim>\<open>catch\<close> handler.\<close>

definition on_error :: "jsnum \<Rightarrow> jsnum \<Rightarrow> config" where
  "on_error defaultIntervalMs defaultFadeMs =
     \<lparr>images = [], intervalMs = defaultIntervalMs, fadeMs = defaultFadeMs\<rparr>"

text \<open>The promise chain: \<open>Inl\<close> is a fetch or a decoding that failed, \<open>Inr\<close> the
  decoded data; whatever is thrown on the way ends in the handler.\<close>

definition load_config ::
  "(string \<Rightarrow> jsnum) \<Rightarrow> (jsnum \<Rightarrow> string) \<Rightarrow> jsnum \<Rightarrow> jsnum \<Rightarrow> error + json \<Rightarrow> config" where
  "load_config s2n n2s defaultIntervalMs defaultFadeMs response =
     (case response of
        Inl e \<Rightarrow> on_error defaultIntervalMs defaultFadeMs
      | Inr data \<Rightarrow>
          (case on_data s2n n2s defaultIntervalMs defaultFadeMs data of
             Inl e \<Rightarrow> on_error defaultIntervalMs defaultFadeMs
           | Inr c \<Rightarrow> c))"

section \<open>Facts about the random source, the selection loop and list updates\<close>

text \<open>
  A draw that honours the contract of \<^verbatim>\<open>Math.random()\<close> indexes inside the
  list it is scaled to.
\<close>

lemma draw_in_range:
  assumes "valid_draw d" "0 < n"
  shows "0 \<le> d n \<and> d n < int n"
  using assms by (simp add: valid_draw_def)

lemma js_index_in_set:
  assumes "valid_draw d" "list \<noteq> []"
  shows "js_index list (d (length list)) \<in> set list"
proof -
  have r: "0 \<le> d (length list) \<and> d (length list) < int (length list)"
    using assms by (intro draw_in_range) auto
  then have "nat (d (length list)) < length list" by linarith
  then have "list ! nat (d (length list)) \<in> set list" by (rule nth_mem)
  with r show ?thesis by (simp add: js_index_def)
qed

lemma loop_partial:
  assumes "pickRandomExcluding_loop rng k list exclude candidate = Some y"
  shows "fst y \<noteq> exclude \<and>
     (fst y = candidate \<or> (\<exists>i. fst y = js_index list (rng i (length list))))"
  using assms
proof (induct rng k list exclude candidate y rule: pickRandomExcluding_loop.raw_induct[rotated 1, consumes 1])
  case (1 loop rng k list exclude candidate y)
  show ?case
  proof (cases "candidate = exclude")
    case True
    with 1(2) have "loop rng (Suc k) list exclude (js_index list (rng k (length list))) = Some y"
      by simp
    from 1(1)[OF this] show ?thesis by auto
  next
    case False
    with 1(2) show ?thesis by auto
  qed
qed

lemma loop_all_equal_aux:
  assumes "pickRandomExcluding_loop rng k list exclude candidate = Some y"
  shows "\<not> (valid_rng rng \<and> list \<noteq> [] \<and> set list \<subseteq> {exclude} \<and> candidate = exclude)"
  using assms
proof (induct rng k list exclude candidate y rule: pickRandomExcluding_loop.raw_induct[rotated 1, consumes 1])
  case (1 loop rng k list exclude candidate y)
  show ?case
  proof
    assume h: "valid_rng rng \<and> list \<noteq> [] \<and> set list \<subseteq> {exclude} \<and> candidate = exclude"
    then have v: "valid_rng rng" and l: "list \<noteq> []" "set list \<subseteq> {exclude}" and c: "candidate = exclude"
      by auto
    from v have "valid_draw (rng k)" by (simp add: valid_rng_def)
    from js_index_in_set[OF this l(1)] l(2)
    have e: "js_index list (rng k (length list)) = exclude" by auto
    from 1(2) c e have "loop rng (Suc k) list exclude exclude = Some y" by simp
    from 1(1)[OF this] v l show False by simp
  qed
qed

lemma loop_all_equal:
  assumes "valid_rng rng" "list \<noteq> []" "set list \<subseteq> {exclude}"
  shows "pickRandomExcluding_loop rng k list exclude exclude = None"
proof (cases "pickRandomExcluding_loop rng k list exclude exclude")
  case None then show ?thesis .
next
  case (Some y)
  from loop_all_equal_aux[OF Some] assms show ?thesis by simp
qed

lemma loop_exits:
  "js_index list (rng (k + j) (length list)) \<noteq> exclude \<Longrightarrow>
   \<exists>c k'. pickRandomExcluding_loop rng k list exclude exclude = Some (c, k')"
proof (induction j arbitrary: k)
  case 0
  then show ?case
    by (subst pickRandomExcluding_loop.simps, simp, subst pickRandomExcluding_loop.simps, simp)
next
  case (Suc j)
  let ?c = "js_index list (rng k (length list))"
  show ?case
  proof (cases "?c = exclude")
    case True
    from Suc.prems have "js_index list (rng (Suc k + j) (length list)) \<noteq> exclude" by simp
    from Suc.IH[OF this] True show ?thesis
      by (subst pickRandomExcluding_loop.simps) simp
  next
    case False
    then show ?thesis
      by (subst pickRandomExcluding_loop.simps, simp, subst pickRandomExcluding_loop.simps, simp)
  qed
qed

lemma filter_update_distinct:
  "distinct (filter P xs) \<Longrightarrow> y \<notin> set (filter P xs) \<Longrightarrow> distinct (filter P (xs[t := y]))"
proof (induction xs arbitrary: t)
  case Nil
  then show ?case by simp
next
  case (Cons x xs)
  show ?case
  proof (cases t)
    case 0
    with Cons.prems show ?thesis by (auto split: if_splits)
  next
    case (Suc t')
    have sub: "set (filter P (xs[t' := y])) \<subseteq> insert y (set (filter P xs))"
      using set_update_subset_insert[of xs t' y] by auto
    from Cons.prems have "distinct (filter P (xs[t' := y]))"
      by (intro Cons.IH) (auto split: if_splits)
    with Suc Cons.prems sub show ?thesis by (auto split: if_splits)
  qed
qed

lemma visible_flip_card: "visible (flip_card c img) = img"
  by (simp add: visible_def flip_card_def)

lemma map_visible_update:
  "map visible (prev[t := flip_card c img]) = (map visible prev)[t := img]"
  by (simp add: map_update visible_flip_card)

text \<open>
  A concrete source that is valid and fair: it walks through the \<open>n\<close> indices in
  turn.
\<close>

lemma valid_rng_cycle: "valid_rng (\<lambda>k n. int (k mod n))"
  by (simp add: valid_rng_def valid_draw_def)

lemma fair_cycle:
  assumes "0 < n"
  shows "fair (\<lambda>k n. int (k mod n)) n"
  unfolding fair_def
proof (intro allI impI)
  fix k i assume "i < n"
  from assms obtain m where m: "n = Suc m" by (cases n) auto
  have e: "k + (i + (n - 1) * k) = i + n * k" unfolding m by simp
  have "(i + n * k) mod n = i" using \<open>i < n\<close> by simp
  then have "(k + (i + (n - 1) * k)) mod n = i" by (simp only: e)
  then have "int ((k + (i + (n - 1) * k)) mod n) = int i" by simp
  then show "\<exists>j. int ((k + j) mod n) = int i" by blast
qed

section \<open>Facts about the selection and the tick\<close>

lemma pickRandomNotIn_candidate:
  assumes r: "valid_draw (rng k)" and ne: "filter (\<lambda>x. x \<notin> vs) list \<noteq> []"
  shows "\<exists>x. pickRandomNotIn rng k list vs = (x, Suc k) \<and> x \<in> set list \<and> x \<notin> vs"
proof -
  let ?cs = "filter (\<lambda>x. x \<notin> vs) list"
  from ne have l: "list \<noteq> []" by auto
  have "js_index ?cs (rng k (length ?cs)) \<in> set ?cs"
    using r ne by (rule js_index_in_set)
  with l ne show ?thesis by (simp add: pickRandomNotIn_def Let_def)
qed

lemma pickRandomNotIn_none:
  "filter (\<lambda>x. x \<notin> vs) list = [] \<Longrightarrow> pickRandomNotIn rng k list vs = (Null, k)"
  by (simp add: pickRandomNotIn_def Let_def)

lemma selectNext_fresh:
  assumes r: "valid_draw (rng k)" and ne: "filter (\<lambda>x. x \<notin> vs) list \<noteq> []"
    and t: "\<forall>x\<in>set list. truthy x"
  shows "\<exists>x. selectNext rng k list vs cur = Some (x, Suc k) \<and> x \<in> set list \<and> x \<notin> vs"
proof -
  from pickRandomNotIn_candidate[where rng=rng and k=k, OF r ne] obtain x where
    x: "pickRandomNotIn rng k list vs = (x, Suc k)" "x \<in> set list" "x \<notin> vs" by blast
  with t have "truthy x" by blast
  with x show ?thesis by (simp add: selectNext_def)
qed

lemma card_visibleSet_le: "card (visibleSet_of cards) \<le> length cards"
proof -
  have "card (set (filter truthy (map visible cards))) \<le> length (filter truthy (map visible cards))"
    by (rule card_length)
  also have "\<dots> \<le> length (map visible cards)" by (rule length_filter_le)
  finally show ?thesis by (simp add: visibleSet_of_def)
qed

lemma candidates_nonempty:
  assumes "card vs < card (set list)" "finite vs"
  shows "filter (\<lambda>x. x \<notin> vs) list \<noteq> []"
proof
  assume "filter (\<lambda>x. x \<notin> vs) list = []"
  then have "set list \<subseteq> vs" by (auto simp: filter_empty_conv)
  then have "card (set list) \<le> card vs" using assms(2) by (rule card_mono[rotated])
  with assms(1) show False by simp
qed

lemma selectNext_single:
  assumes "\<not> truthy x \<or> x \<in> vs"
  shows "\<exists>k'. selectNext rng k [x] vs x = Some (x, k')"
proof (cases "x \<in> vs")
  case True
  then show ?thesis
    by (simp add: selectNext_def pickRandomNotIn_def pickRandomExcluding_def)
next
  case False
  with assms have nt: "\<not> truthy x" by simp
  have "\<not> truthy (js_index [x] i)" for i using nt by (simp add: js_index_def)
  with False nt show ?thesis
    by (simp add: selectNext_def pickRandomNotIn_def pickRandomExcluding_def)
qed

lemma tick_single:
  assumes "\<forall>c\<in>set cards. visible c = x"
  shows "\<exists>cards' k'. tick rng k [x] cards = Some (cards', k') \<and> map visible cards' = map visible cards"
proof (cases "card_at cards (rng k 3)")
  case None
  then show ?thesis by (simp add: tick_def rotation_effect_def tick_callback_def)
next
  case (Some c)
  let ?t = "nat (rng k 3)"
  from Some have t: "?t < length cards" and c: "c = cards ! ?t"
    by (auto simp: card_at_def split: if_splits)
  then have cin: "c \<in> set cards" by simp
  with assms have vc: "visible c = x" by blast
  have "\<not> truthy x \<or> x \<in> visibleSet_of cards"
    using cin vc by (auto simp: visibleSet_of_def)
  from selectNext_single[OF this] obtain k' where
    s: "selectNext rng (Suc k) [x] (visibleSet_of cards) x = Some (x, k')" by blast
  have "(map visible cards)[?t := x] = map visible cards"
    using t vc c by (metis list_update_id nth_map)
  with Some s vc show ?thesis
    by (simp add: tick_def rotation_effect_def tick_callback_def map_visible_update)
qed

lemma selectNext_returns:
  assumes f: "fair rng (length pool)" and p: "length pool = 1 \<or> 2 \<le> card (set pool)"
  shows "selectNext rng k pool vs cur \<noteq> None"
proof -
  obtain x k1 where n: "pickRandomNotIn rng k pool vs = (x, k1)" by (cases "pickRandomNotIn rng k pool vs")
  have "pickRandomExcluding rng k1 pool cur \<noteq> None"
  proof (cases "length pool = 1")
    case True
    then show ?thesis by (auto simp: pickRandomExcluding_def)
  next
    case False
    with p have two: "2 \<le> card (set pool)" by simp
    have "\<not> set pool \<subseteq> {cur}"
    proof
      assume "set pool \<subseteq> {cur}"
      then have "card (set pool) \<le> card {cur}" by (intro card_mono) auto
      with two show False by simp
    qed
    then obtain y where y: "y \<in> set pool" "y \<noteq> cur" by auto
    then obtain i where i: "i < length pool" "pool ! i = y" by (auto simp: in_set_conv_nth)
    from f i(1) obtain j where "rng (k1 + j) (length pool) = int i"
      unfolding fair_def by blast
    with i y have "js_index pool (rng (k1 + j) (length pool)) \<noteq> cur"
      by (simp add: js_index_def)
    from loop_exits[where rng=rng and k=k1 and j=j, OF this] obtain c k' where
      "pickRandomExcluding_loop rng k1 pool cur cur = Some (c, k')" by blast
    with False i(1) show ?thesis by (auto simp: pickRandomExcluding_def)
  qed
  with n show ?thesis by (auto simp: selectNext_def)
qed

text \<open>
  The callback on its own does not leave the cards alone when its pool is empty: both
  pickers return \<^verbatim>\<open>null\<close>, the current image is kept, the hidden layer is
  rewritten with it and the flag is flipped. It is the guard of the effect that keeps a
  component with an empty pool idle.
\<close>

lemma tick_callback_empty_pool:
  assumes "card_at prev (rng k 3) = Some c"
  shows "tick_callback rng k [] prev =
           Some (prev[nat (rng k 3) := flip_card c (visible c)], Suc k)"
  using assms
  by (simp add: tick_callback_def selectNext_def pickRandomNotIn_def pickRandomExcluding_def)

section \<open>Facts about the configuration loader\<close>

lemma on_data_interval:
  "on_data s2n n2s dI dF data = Inr c \<Longrightarrow> gt0 dI \<Longrightarrow> gt0 (intervalMs c)"
  by (auto simp: on_data_def Let_def split: json.splits sum.splits if_splits)

lemma on_data_fade:
  "on_data s2n n2s dI dF data = Inr c \<Longrightarrow> gt0 dF \<Longrightarrow> gt0 (fadeMs c)"
  by (auto simp: on_data_def Let_def split: json.splits sum.splits if_splits)

lemma nullish_present: "v \<noteq> JNull \<Longrightarrow> nullish (Some v) y = Some v"
  by (cases v) (simp_all add: nullish_def)

lemma nullish_absent: "x = None \<or> x = Some JNull \<Longrightarrow> nullish x y = y"
  by (auto simp: nullish_def)

lemma load_config_obj_interval_default:
  assumes "\<forall>x. Number s2n n2s (nullish (map_of kvs ''INTERVAL_MS'') (map_of kvs ''intervalMs'')) = Inr x
                 \<longrightarrow> \<not> (isFinite x \<and> gt0 x)"
  shows "intervalMs (load_config s2n n2s dI dF (Inr (JObj kvs))) = dI"
  using assms by (auto simp: load_config_def on_error_def on_data_def Let_def split: sum.splits)

lemma load_config_obj_fade_default:
  assumes "\<forall>x. Number s2n n2s (nullish (map_of kvs ''FADE_MS'') (map_of kvs ''fadeMs'')) = Inr x
                 \<longrightarrow> \<not> (isFinite x \<and> gt0 x)"
  shows "fadeMs (load_config s2n n2s dI dF (Inr (JObj kvs))) = dF"
  using assms by (auto simp: load_config_def on_error_def on_data_def Let_def split: sum.splits)

section \<open>The no-duplicate invariant\<close>

text \<open>
  C1. The specification has one tick keep the visible images free of duplicates for every
  pool with at least four distinct identifiers. The code does not when the pool holds an
  empty string beside them. Pool \<^verbatim>\<open>["", "a", "b", "c", "d"]\<close>, the slots showing
  \<^verbatim>\<open>"a"\<close>, \<^verbatim>\<open>"b"\<close>, \<^verbatim>\<open>"c"\<close>, the draws selecting slot 0, then index 0 of
  the two candidates \<^verbatim>\<open>["", "d"]\<close>, then index 2 of the pool:
  \<^verbatim>\<open>pickRandomNotIn\<close> returns the candidate \<^verbatim>\<open>""\<close>, the test
  \<^verbatim>\<open>!newImg\<close> takes it for "no candidate", and \<^verbatim>\<open>pickRandomExcluding\<close>
  returns \<^verbatim>\<open>"b"\<close>, which slot 1 already shows, although \<^verbatim>\<open>"d"\<close> was free.
\<close>

theorem tick_duplicate_with_empty_entry:
  "4 \<le> card (set (filter truthy [Str '''', Str ''a'', Str ''b'', Str ''c'', Str ''d''])) \<and>
   no_duplicate
     [\<lparr>a = Str ''a'', b = Str ''a'', showA = True\<rparr>,
      \<lparr>a = Str ''b'', b = Str ''b'', showA = True\<rparr>,
      \<lparr>a = Str ''c'', b = Str ''c'', showA = True\<rparr>] \<and>
   tick (\<lambda>k n. if k = 2 \<and> 2 < n then 2 else 0) 0
     [Str '''', Str ''a'', Str ''b'', Str ''c'', Str ''d'']
     [\<lparr>a = Str ''a'', b = Str ''a'', showA = True\<rparr>,
      \<lparr>a = Str ''b'', b = Str ''b'', showA = True\<rparr>,
      \<lparr>a = Str ''c'', b = Str ''c'', showA = True\<rparr>]
   = Some ([\<lparr>a = Str ''a'', b = Str ''b'', showA = False\<rparr>,
            \<lparr>a = Str ''b'', b = Str ''b'', showA = True\<rparr>,
            \<lparr>a = Str ''c'', b = Str ''c'', showA = True\<rparr>], 3) \<and>
   \<not> no_duplicate
     [\<lparr>a = Str ''a'', b = Str ''b'', showA = False\<rparr>,
      \<lparr>a = Str ''b'', b = Str ''b'', showA = True\<rparr>,
      \<lparr>a = Str ''c'', b = Str ''c'', showA = True\<rparr>]"
proof (intro conjI)
  show "4 \<le> card (set (filter truthy [Str '''', Str ''a'', Str ''b'', Str ''c'', Str ''d'']))"
    by simp
  show "no_duplicate
     [\<lparr>a = Str ''a'', b = Str ''a'', showA = True\<rparr>,
      \<lparr>a = Str ''b'', b = Str ''b'', showA = True\<rparr>,
      \<lparr>a = Str ''c'', b = Str ''c'', showA = True\<rparr>]"
    by (simp add: no_duplicate_def visible_def)
  show "tick (\<lambda>k n. if k = 2 \<and> 2 < n then 2 else 0) 0
     [Str '''', Str ''a'', Str ''b'', Str ''c'', Str ''d'']
     [\<lparr>a = Str ''a'', b = Str ''a'', showA = True\<rparr>,
      \<lparr>a = Str ''b'', b = Str ''b'', showA = True\<rparr>,
      \<lparr>a = Str ''c'', b = Str ''c'', showA = True\<rparr>]
   = Some ([\<lparr>a = Str ''a'', b = Str ''b'', showA = False\<rparr>,
            \<lparr>a = Str ''b'', b = Str ''b'', showA = True\<rparr>,
            \<lparr>a = Str ''c'', b = Str ''c'', showA = True\<rparr>], 3)"
    by code_simp
  show "\<not> no_duplicate
     [\<lparr>a = Str ''a'', b = Str ''b'', showA = False\<rparr>,
      \<lparr>a = Str ''b'', b = Str ''b'', showA = True\<rparr>,
      \<lparr>a = Str ''c'', b = Str ''c'', showA = True\<rparr>]"
    by (simp add: no_duplicate_def visible_def)
qed

text \<open>
  The draws of that run honour the contract of \<^verbatim>\<open>Math.random()\<close>.
\<close>

lemma empty_entry_draws_valid: "valid_rng (\<lambda>k n. if k = 2 \<and> 2 < n then 2 else 0)"
  by (simp add: valid_rng_def valid_draw_def)

text \<open>
  When every entry of the pool is truthy (a non-empty string) the invariant is kept: with
  at least four distinct entries, three slots and draws that honour the contract, the tick
  returns and the visible images again hold no image twice.
\<close>

lemma tick_no_duplicate_truthy_pool:
  assumes r: "valid_draw (rng k)" "valid_draw (rng (Suc k))"
    and ids: "\<forall>x\<in>set pool. truthy x"
    and four: "4 \<le> card (set pool)"
    and three: "length cards = 3"
    and nodup: "no_duplicate cards"
  shows "\<exists>cards' k'. tick rng k pool cards = Some (cards', k') \<and> no_duplicate cards'"
proof -
  from four have ne: "pool \<noteq> []" by auto
  let ?t = "rng k 3"
  have t: "0 \<le> ?t \<and> ?t < 3" using draw_in_range[OF r(1), of 3] by simp
  then have cat: "card_at cards ?t = Some (cards ! nat ?t)" using three by (simp add: card_at_def)
  let ?vs = "visibleSet_of cards"
  have "card ?vs \<le> 3" using card_visibleSet_le[of cards] three by simp
  with four have "card ?vs < card (set pool)" by simp
  moreover have "finite ?vs" by (simp add: visibleSet_of_def)
  ultimately have cand: "filter (\<lambda>x. x \<notin> ?vs) pool \<noteq> []" by (rule candidates_nonempty)
  from selectNext_fresh[where rng=rng and k="Suc k" and cur="visible (cards ! nat ?t)", OF r(2) cand ids] obtain x where
    x: "selectNext rng (Suc k) pool ?vs (visible (cards ! nat ?t)) = Some (x, Suc (Suc k))"
       "x \<notin> ?vs" by blast
  let ?cards' = "cards[nat ?t := flip_card (cards ! nat ?t) x]"
  have tk: "tick rng k pool cards = Some (?cards', Suc (Suc k))"
    using ne cat x(1) by (simp add: tick_def rotation_effect_def tick_callback_def Let_def)
  have "distinct (filter truthy ((map visible cards)[nat ?t := x]))"
    using nodup x(2) by (intro filter_update_distinct) (simp_all add: no_duplicate_def visibleSet_of_def)
  then have "no_duplicate ?cards'" by (simp add: no_duplicate_def map_visible_update)
  with tk show ?thesis by blast
qed

section \<open>A pool of one repeated value\<close>

text \<open>
  C2. The specification has the selection end and keep the current image when the pool
  has more than one entry, all of them the value the target card shows. The code does not
  end there: nothing is outside the visible set, so \<^verbatim>\<open>pickRandomExcluding\<close> is
  called; the pool has more than one entry, so its loop is entered; and every in-range draw
  gives the excluded value again. The assignment \<^verbatim>\<open>newImg = currentVisible\<close>
  that would keep the current image is never reached.
\<close>

theorem selectNext_duplicate_pool_diverges:
  assumes "valid_rng rng" "2 \<le> n" "v \<in> vs"
  shows "selectNext rng k (replicate n v) vs v = None"
proof -
  have f: "filter (\<lambda>x. x \<notin> vs) (replicate n v) = []" using assms(3) by simp
  have l: "replicate n v \<noteq> []" "length (replicate n v) \<noteq> 1" using assms(2) by auto
  have "pickRandomExcluding_loop rng k (replicate n v) v v = None"
    using assms(1) l(1) by (rule loop_all_equal) auto
  then have "pickRandomExcluding rng k (replicate n v) v = None"
    using l by (simp add: pickRandomExcluding_def)
  then show ?thesis by (simp add: selectNext_def pickRandomNotIn_none[OF f])
qed

text \<open>
  The pool \<^verbatim>\<open>["a", "a"]\<close> with \<^verbatim>\<open>"a"\<close> visible.
\<close>

theorem selectNext_duplicate_pool_diverges_witness:
  "selectNext (\<lambda>k n. 0) 0 [Str ''a'', Str ''a''] {Str ''a''} (Str ''a'') = None"
proof -
  have v: "valid_rng (\<lambda>k n. 0)" by (simp add: valid_rng_def valid_draw_def)
  have r: "replicate 2 (Str ''a'') = [Str ''a'', Str ''a'']" by (simp add: numeral_2_eq_2)
  from selectNext_duplicate_pool_diverges[OF v, of 2 "Str ''a''" "{Str ''a''}" 0]
  show ?thesis unfolding r by simp
qed

section \<open>The empty pool\<close>

text \<open>
  C3. With an empty pool the effect has installed no timer, so a scheduling period
  returns and leaves every slot (both layers and the flag) as it was.
\<close>

theorem tick_empty_pool: "tick rng k [] cards = Some (cards, k)"
  by (simp add: tick_def rotation_effect_def)

section \<open>What one tick writes\<close>

text \<open>
  C4. The specification has every tick on a non-empty pool write the inactive layer of
  exactly one slot and flip that slot's flag. The code does not on a pool of several
  entries that are all one value, once the three slots show that value (as they do after
  the cards are initialised from such a pool): the selection enters the loop of
  \<^verbatim>\<open>pickRandomExcluding\<close>, every draw gives the excluded value again, and the
  interval callback does not return, so no layer is written and no flag is flipped.
\<close>

theorem tick_duplicate_pool_never_returns:
  assumes v: "valid_rng rng" and n: "2 \<le> n" and tr: "truthy v"
    and three: "length cards = 3" and shown: "\<forall>c\<in>set cards. visible c = v"
  shows "tick rng k (replicate n v) cards = None"
proof -
  let ?pool = "replicate n v"
  let ?t = "rng k 3"
  from v have "valid_draw (rng k)" by (simp add: valid_rng_def)
  then have t: "0 \<le> ?t \<and> ?t < 3" using draw_in_range[of "rng k" 3] by simp
  then have cat: "card_at cards ?t = Some (cards ! nat ?t)" using three by (simp add: card_at_def)
  have "nat ?t < length cards" using t three by linarith
  then have cin: "cards ! nat ?t \<in> set cards" by (rule nth_mem)
  with shown have cur: "visible (cards ! nat ?t) = v" by blast
  from cin cur tr have vis: "v \<in> visibleSet_of cards" by (force simp: visibleSet_of_def)
  have f: "filter (\<lambda>x. x \<notin> visibleSet_of cards) ?pool = []" using vis by simp
  have l: "?pool \<noteq> []" "length ?pool \<noteq> 1" using n by auto
  have "pickRandomExcluding_loop rng (Suc k) ?pool v v = None"
    using v l(1) by (rule loop_all_equal) auto
  then have "pickRandomExcluding rng (Suc k) ?pool v = None"
    using l by (simp add: pickRandomExcluding_def)
  then have "selectNext rng (Suc k) ?pool (visibleSet_of cards) v = None"
    by (simp add: selectNext_def pickRandomNotIn_none[OF f])
  with cat cur l(1) show ?thesis
    by (simp add: tick_def rotation_effect_def tick_callback_def)
qed

text \<open>
  The pool \<^verbatim>\<open>["a", "a"]\<close> with the three slots showing \<^verbatim>\<open>"a"\<close>.
\<close>

theorem tick_duplicate_pool_never_returns_witness:
  "tick (\<lambda>k n. 0) 0 [Str ''a'', Str ''a'']
     [\<lparr>a = Str ''a'', b = Str ''a'', showA = True\<rparr>,
      \<lparr>a = Str ''a'', b = Str ''a'', showA = True\<rparr>,
      \<lparr>a = Str ''a'', b = Str ''a'', showA = True\<rparr>] = None"
proof -
  let ?cards = "[\<lparr>a = Str ''a'', b = Str ''a'', showA = True\<rparr>,
      \<lparr>a = Str ''a'', b = Str ''a'', showA = True\<rparr>,
      \<lparr>a = Str ''a'', b = Str ''a'', showA = True\<rparr>]"
  have v: "valid_rng (\<lambda>k n. 0)" by (simp add: valid_rng_def valid_draw_def)
  have n: "(2::nat) \<le> 2" by simp
  have t: "truthy (Str ''a'')" by simp
  have l: "length ?cards = 3" by simp
  have s: "\<forall>c\<in>set ?cards. visible c = Str ''a''" by (simp add: visible_def)
  have r: "replicate 2 (Str ''a'') = [Str ''a'', Str ''a'']" by (simp add: numeral_2_eq_2)
  from tick_duplicate_pool_never_returns[OF v n t l s, of 0]
  show ?thesis unfolding r .
qed

text \<open>
  On every input on which the tick does return, it does what the specification says. For
  every non-empty pool and every state of three slots, with a target draw that honours the
  contract of \<^verbatim>\<open>Math.random()\<close>: the target \<open>t\<close> is the slot the draw
  selects, and whenever the tick returns, the other two slots are as before, the flag of
  slot \<open>t\<close> is flipped, the layer that was active keeps its image, and the layer that
  was inactive (now visible) holds the image the selection returned. With a fair source the
  tick returns when the pool has one entry or at least two distinct values.
\<close>

lemma tick_frame:
  assumes r: "valid_draw (rng k)" and three: "length cards = 3" and ne: "pool \<noteq> []"
  shows "\<exists>t<3. int t = rng k 3 \<and>
      (\<forall>cards' k'. tick rng k pool cards = Some (cards', k') \<longrightarrow>
         length cards' = 3 \<and>
         (\<forall>i<3. i \<noteq> t \<longrightarrow> cards' ! i = cards ! i) \<and>
         showA (cards' ! t) = (\<not> showA (cards ! t)) \<and>
         (showA (cards ! t) \<longrightarrow> a (cards' ! t) = a (cards ! t)) \<and>
         (\<not> showA (cards ! t) \<longrightarrow> b (cards' ! t) = b (cards ! t)) \<and>
         (\<exists>newImg. selectNext rng (Suc k) pool (visibleSet_of cards) (visible (cards ! t)) = Some (newImg, k')
            \<and> visible (cards' ! t) = newImg)) \<and>
      ((length pool = 1 \<or> 2 \<le> card (set pool)) \<and> fair rng (length pool) \<longrightarrow>
         tick rng k pool cards \<noteq> None)"
proof -
  let ?t = "nat (rng k 3)"
  have t: "0 \<le> rng k 3 \<and> rng k 3 < 3"
    using draw_in_range[OF r, of 3] by simp
  then have t3: "?t < 3" "int ?t = rng k 3" by auto
  have cat: "card_at cards (rng k 3) = Some (cards ! ?t)"
    using t three by (simp add: card_at_def)
  let ?sel = "selectNext rng (Suc k) pool (visibleSet_of cards) (visible (cards ! ?t))"
  have tk: "tick rng k pool cards =
      (case ?sel of None \<Rightarrow> None
       | Some (newImg, k') \<Rightarrow> Some (cards[?t := flip_card (cards ! ?t) newImg], k'))"
    using ne cat by (simp add: tick_def rotation_effect_def tick_callback_def Let_def)
  have part: "length cards' = 3 \<and>
         (\<forall>i<3. i \<noteq> ?t \<longrightarrow> cards' ! i = cards ! i) \<and>
         showA (cards' ! ?t) = (\<not> showA (cards ! ?t)) \<and>
         (showA (cards ! ?t) \<longrightarrow> a (cards' ! ?t) = a (cards ! ?t)) \<and>
         (\<not> showA (cards ! ?t) \<longrightarrow> b (cards' ! ?t) = b (cards ! ?t)) \<and>
         (\<exists>newImg. ?sel = Some (newImg, k') \<and> visible (cards' ! ?t) = newImg)"
    if h: "tick rng k pool cards = Some (cards', k')" for cards' k'
  proof -
    from h tk obtain newImg where
      s: "?sel = Some (newImg, k')" and c: "cards' = cards[?t := flip_card (cards ! ?t) newImg]"
      by (auto split: option.splits)
    have f: "cards' ! ?t = flip_card (cards ! ?t) newImg" using c t3(1) three by simp
    have o: "\<forall>i<3. i \<noteq> ?t \<longrightarrow> cards' ! i = cards ! i" using c by simp
    have l: "length cards' = 3" using c three by simp
    from f have "showA (cards' ! ?t) = (\<not> showA (cards ! ?t))"
      "showA (cards ! ?t) \<longrightarrow> a (cards' ! ?t) = a (cards ! ?t)"
      "\<not> showA (cards ! ?t) \<longrightarrow> b (cards' ! ?t) = b (cards ! ?t)"
      "visible (cards' ! ?t) = newImg"
      by (simp_all add: flip_card_def visible_def)
    with s o l show ?thesis by blast
  qed
  have tot: "tick rng k pool cards \<noteq> None"
    if "(length pool = 1 \<or> 2 \<le> card (set pool)) \<and> fair rng (length pool)"
  proof -
    from that have "?sel \<noteq> None" by (intro selectNext_returns) auto
    with tk show ?thesis by (auto split: option.splits)
  qed
  from t3 part tot show ?thesis by blast
qed

section \<open>Loading a configuration\<close>

text \<open>
  C5. With positive defaults, as the component's documentation requires of them, loading
  ends for every response (a failed load, or any decoded value) in a configuration with a
  list of images, \<open>intervalMs > 0\<close> and \<open>fadeMs > 0\<close>. A response that is neither
  an array nor an object gives the empty pool and both defaults; an array gives itself and
  both defaults; an object whose timing value does not convert to a finite positive number
  (the conversion may also throw) gives the default for that timing.
\<close>

theorem load_config_total:
  assumes "gt0 dI" "gt0 dF"
  shows "gt0 (intervalMs (load_config s2n n2s dI dF response)) \<and>
         gt0 (fadeMs (load_config s2n n2s dI dF response)) \<and>
         ((\<forall>data. response = Inr data \<longrightarrow> (\<forall>xs. data \<noteq> JArr xs) \<and> (\<forall>kvs. data \<noteq> JObj kvs)) \<longrightarrow>
            load_config s2n n2s dI dF response = \<lparr>images = [], intervalMs = dI, fadeMs = dF\<rparr>) \<and>
         (\<forall>xs. response = Inr (JArr xs) \<longrightarrow>
            load_config s2n n2s dI dF response = \<lparr>images = xs, intervalMs = dI, fadeMs = dF\<rparr>) \<and>
         (\<forall>kvs. response = Inr (JObj kvs) \<longrightarrow>
            (\<forall>x. Number s2n n2s (nullish (map_of kvs ''INTERVAL_MS'') (map_of kvs ''intervalMs'')) = Inr x
                 \<longrightarrow> \<not> (isFinite x \<and> gt0 x)) \<longrightarrow>
            intervalMs (load_config s2n n2s dI dF response) = dI) \<and>
         (\<forall>kvs. response = Inr (JObj kvs) \<longrightarrow>
            (\<forall>x. Number s2n n2s (nullish (map_of kvs ''FADE_MS'') (map_of kvs ''fadeMs'')) = Inr x
                 \<longrightarrow> \<not> (isFinite x \<and> gt0 x)) \<longrightarrow>
            fadeMs (load_config s2n n2s dI dF response) = dF)"
proof (intro conjI)
  show "gt0 (intervalMs (load_config s2n n2s dI dF response))"
    using assms(1) on_data_interval[of s2n n2s dI dF]
    by (auto simp: load_config_def on_error_def split: sum.splits)
  show "gt0 (fadeMs (load_config s2n n2s dI dF response))"
    using assms(2) on_data_fade[of s2n n2s dI dF]
    by (auto simp: load_config_def on_error_def split: sum.splits)
  show "(\<forall>data. response = Inr data \<longrightarrow> (\<forall>xs. data \<noteq> JArr xs) \<and> (\<forall>kvs. data \<noteq> JObj kvs)) \<longrightarrow>
            load_config s2n n2s dI dF response = \<lparr>images = [], intervalMs = dI, fadeMs = dF\<rparr>"
    by (auto simp: load_config_def on_error_def on_data_def split: sum.splits json.splits)
  show "\<forall>xs. response = Inr (JArr xs) \<longrightarrow>
            load_config s2n n2s dI dF response = \<lparr>images = xs, intervalMs = dI, fadeMs = dF\<rparr>"
    by (simp add: load_config_def on_data_def)
  show "\<forall>kvs. response = Inr (JObj kvs) \<longrightarrow>
            (\<forall>x. Number s2n n2s (nullish (map_of kvs ''INTERVAL_MS'') (map_of kvs ''intervalMs'')) = Inr x
                 \<longrightarrow> \<not> (isFinite x \<and> gt0 x)) \<longrightarrow>
            intervalMs (load_config s2n n2s dI dF response) = dI"
    by (auto simp: load_config_def on_error_def on_data_def Let_def split: sum.splits)
  show "\<forall>kvs. response = Inr (JObj kvs) \<longrightarrow>
            (\<forall>x. Number s2n n2s (nullish (map_of kvs ''FADE_MS'') (map_of kvs ''fadeMs'')) = Inr x
                 \<longrightarrow> \<not> (isFinite x \<and> gt0 x)) \<longrightarrow>
            fadeMs (load_config s2n n2s dI dF response) = dF"
    by (auto simp: load_config_def on_error_def on_data_def Let_def split: sum.splits)
qed

text \<open>
  The theorem at the decoded number 42, beside an object whose interval is an object with
  a \<^verbatim>\<open>toString\<close> key: its conversion throws, and the handler resets everything.
\<close>

theorem load_config_total_witness:
  "load_config (\<lambda>s. NaN) (\<lambda>n. ''0'') (Finite 5000) (Finite 3000)
      (Inr (JObj [(''images'', JArr [JStr ''x.png'']), (''INTERVAL_MS'', JObj [(''toString'', JNull)]),
                  (''FADE_MS'', JNum (Finite 7))]))
     = \<lparr>images = [], intervalMs = Finite 5000, fadeMs = Finite 3000\<rparr> \<and>
   gt0 (intervalMs (load_config (\<lambda>s. NaN) (\<lambda>n. ''0'') (Finite 5000) (Finite 3000) (Inr (JNum (Finite 42))))) \<and>
   load_config (\<lambda>s. NaN) (\<lambda>n. ''0'') (Finite 5000) (Finite 3000) (Inr (JNum (Finite 42)))
     = \<lparr>images = [], intervalMs = Finite 5000, fadeMs = Finite 3000\<rparr>"
proof -
  have g: "gt0 (Finite 5000)" "gt0 (Finite 3000)" by simp_all
  from load_config_total[OF g, of "\<lambda>s. NaN" "\<lambda>n. ''0''" "Inr (JNum (Finite 42))"]
  have "gt0 (intervalMs (load_config (\<lambda>s. NaN) (\<lambda>n. ''0'') (Finite 5000) (Finite 3000) (Inr (JNum (Finite 42)))))"
    and "load_config (\<lambda>s. NaN) (\<lambda>n. ''0'') (Finite 5000) (Finite 3000) (Inr (JNum (Finite 42)))
     = \<lparr>images = [], intervalMs = Finite 5000, fadeMs = Finite 3000\<rparr>"
    by simp_all
  moreover have "load_config (\<lambda>s. NaN) (\<lambda>n. ''0'') (Finite 5000) (Finite 3000)
      (Inr (JObj [(''images'', JArr [JStr ''x.png'']), (''INTERVAL_MS'', JObj [(''toString'', JNull)]),
                  (''FADE_MS'', JNum (Finite 7))]))
     = \<lparr>images = [], intervalMs = Finite 5000, fadeMs = Finite 3000\<rparr>"
    by (simp add: load_config_def on_data_def on_error_def Number_def nullish_def)
  ultimately show ?thesis by simp
qed

section \<open>The selection on the two pools of the specification\<close>

text \<open>
  C6. Pool \<^verbatim>\<open>["a", "b", "c"]\<close>, all three visible, the target showing
  \<^verbatim>\<open>"a"\<close>. With draws that honour the contract of \<^verbatim>\<open>Math.random()\<close>,
  whatever the selection returns is \<^verbatim>\<open>"b"\<close> or \<^verbatim>\<open>"c"\<close>, never
  \<^verbatim>\<open>"a"\<close>; and with a fair source it does return.
\<close>

theorem selectNext_all_visible_fallback:
  assumes v: "valid_rng rng"
  shows "(\<forall>x k'. selectNext rng k [Str ''a'', Str ''b'', Str ''c'']
              {Str ''a'', Str ''b'', Str ''c''} (Str ''a'') = Some (x, k')
            \<longrightarrow> x = Str ''b'' \<or> x = Str ''c'') \<and>
         (fair rng 3 \<longrightarrow>
            (\<exists>x k'. selectNext rng k [Str ''a'', Str ''b'', Str ''c'']
                {Str ''a'', Str ''b'', Str ''c''} (Str ''a'') = Some (x, k')))"
proof -
  let ?pool = "[Str ''a'', Str ''b'', Str ''c'']"
  let ?vs = "{Str ''a'', Str ''b'', Str ''c''}"
  let ?loop = "pickRandomExcluding_loop rng k ?pool (Str ''a'') (Str ''a'')"
  have sel: "selectNext rng k ?pool ?vs (Str ''a'') =
      (case ?loop of None \<Rightarrow> None
       | Some (y, k2) \<Rightarrow> Some (if truthy y then y else Str ''a'', k2))"
    by (simp add: selectNext_def pickRandomNotIn_def pickRandomExcluding_def)
  have res: "y = Str ''b'' \<or> y = Str ''c''" if l: "?loop = Some (y, k2)" for y k2
  proof -
    from loop_partial[OF l] obtain i where
      y: "y \<noteq> Str ''a''" "y = js_index ?pool (rng i (length ?pool))" by auto
    from v have "valid_draw (rng i)" by (simp add: valid_rng_def)
    then have "js_index ?pool (rng i (length ?pool)) \<in> set ?pool"
      by (rule js_index_in_set) simp
    with y show ?thesis by auto
  qed
  have part: "x = Str ''b'' \<or> x = Str ''c''"
    if s: "selectNext rng k ?pool ?vs (Str ''a'') = Some (x, k')" for x k'
  proof -
    from s sel obtain y where l: "?loop = Some (y, k')" and x: "x = (if truthy y then y else Str ''a'')"
      by (auto split: option.splits)
    from res[OF l] have "truthy y" by auto
    with x res[OF l] show ?thesis by simp
  qed
  have tot: "\<exists>x k'. selectNext rng k ?pool ?vs (Str ''a'') = Some (x, k')" if f: "fair rng 3"
  proof -
    from f have "\<forall>i<3. \<exists>j. rng (k + j) 3 = int i"
      unfolding fair_def by blast
    then have "(1::nat) < 3 \<longrightarrow> (\<exists>j. rng (k + j) 3 = int 1)" by (rule spec)
    then obtain j where "rng (k + j) 3 = int 1" by auto
    moreover have len: "length ?pool = 3" by simp
    ultimately have ri: "rng (k + j) (length ?pool) = 1" by (simp only: of_nat_1)
    have "js_index ?pool 1 \<noteq> Str ''a''" by (simp add: js_index_def)
    then have "js_index ?pool (rng (k + j) (length ?pool)) \<noteq> Str ''a''"
      by (subst ri)
    from loop_exits[where rng=rng and k=k and j=j, OF this] obtain y k2 where
      "?loop = Some (y, k2)" by blast
    with sel show ?thesis by simp
  qed
  from part tot show ?thesis by blast
qed

text \<open>
  The theorem at the source that walks through the three indices in turn.
\<close>

theorem selectNext_all_visible_fallback_witness:
  "valid_rng (\<lambda>k n. int (k mod n)) \<and> fair (\<lambda>k n. int (k mod n)) 3 \<and>
   (\<exists>x k'. selectNext (\<lambda>k n. int (k mod n)) 0 [Str ''a'', Str ''b'', Str ''c'']
            {Str ''a'', Str ''b'', Str ''c''} (Str ''a'') = Some (x, k')
          \<and> (x = Str ''b'' \<or> x = Str ''c''))"
proof -
  have v: "valid_rng (\<lambda>k n. int (k mod n))" by (rule valid_rng_cycle)
  have f: "fair (\<lambda>k n. int (k mod n)) 3" by (rule fair_cycle) simp
  from selectNext_all_visible_fallback[OF v, of 0] f
  have "\<exists>x k'. selectNext (\<lambda>k n. int (k mod n)) 0 [Str ''a'', Str ''b'', Str ''c'']
            {Str ''a'', Str ''b'', Str ''c''} (Str ''a'') = Some (x, k')
          \<and> (x = Str ''b'' \<or> x = Str ''c'')" by blast
  with v f show ?thesis by (intro conjI)
qed

text \<open>
  C7. Pool \<^verbatim>\<open>["a", "b", "c", "d"]\<close>, \<^verbatim>\<open>"a"\<close>, \<^verbatim>\<open>"b"\<close> and
  \<^verbatim>\<open>"c"\<close> visible, the target showing \<^verbatim>\<open>"a"\<close>: for every draw that
  honours the contract of \<^verbatim>\<open>Math.random()\<close> the selection returns
  \<^verbatim>\<open>"d"\<close>, after that one draw.
\<close>

theorem selectNext_fallback_precedence:
  assumes "valid_draw (rng k)"
  shows "selectNext rng k [Str ''a'', Str ''b'', Str ''c'', Str ''d'']
           {Str ''a'', Str ''b'', Str ''c''} (Str ''a'') = Some (Str ''d'', Suc k)"
proof -
  have "rng k (Suc 0) = 0" using draw_in_range[OF assms, of "Suc 0"] by simp
  then show ?thesis
    by (simp add: selectNext_def pickRandomNotIn_def js_index_def)
qed

text \<open>
  The theorem at a source whose draws all give index 0.
\<close>

theorem selectNext_fallback_precedence_witness:
  "selectNext (\<lambda>k n. 0) 0 [Str ''a'', Str ''b'', Str ''c'', Str ''d'']
           {Str ''a'', Str ''b'', Str ''c''} (Str ''a'') = Some (Str ''d'', 1)"
proof -
  have v: "valid_draw ((\<lambda>k n. 0) (0::nat))" by (simp add: valid_draw_def)
  from selectNext_fallback_precedence[where rng="\<lambda>k n. 0" and k=0, OF v]
  show ?thesis by simp
qed

section \<open>A pool of one entry\<close>

text \<open>
  C8. The pool holds exactly one entry \<open>x\<close> and every slot shows \<open>x\<close>. Then
  every number of ticks, with any random source, returns, and the visible image of every
  slot is the same as before, namely \<open>x\<close>.
\<close>

theorem single_image_stable:
  assumes "\<forall>c\<in>set cards. visible c = x"
  shows "\<exists>cards' k'. ticks n rng k [x] cards = Some (cards', k')
           \<and> map visible cards' = map visible cards \<and> (\<forall>c\<in>set cards'. visible c = x)"
  using assms
proof (induction n arbitrary: cards k)
  case 0
  then show ?case by simp
next
  case (Suc n)
  from tick_single[OF Suc.prems] obtain cards1 k1 where
    t: "tick rng k [x] cards = Some (cards1, k1)" "map visible cards1 = map visible cards" by blast
  have "set (map visible cards1) = set (map visible cards)" using t(2) by simp
  with Suc.prems have p: "\<forall>c\<in>set cards1. visible c = x" by auto
  from Suc.IH[OF p, of k1] t show ?case by auto
qed

text \<open>
  The theorem at four ticks of three slots showing \<^verbatim>\<open>"x"\<close>.
\<close>

theorem single_image_stable_witness:
  "\<exists>cards' k'. ticks 4 (\<lambda>k n. int (k mod n)) 0 [Str ''x'']
      [\<lparr>a = Str ''x'', b = Str ''x'', showA = True\<rparr>,
       \<lparr>a = Str ''x'', b = Str ''x'', showA = True\<rparr>,
       \<lparr>a = Str ''x'', b = Str ''x'', showA = True\<rparr>] = Some (cards', k')
     \<and> map visible cards' = [Str ''x'', Str ''x'', Str ''x'']"
proof -
  let ?cards = "[\<lparr>a = Str ''x'', b = Str ''x'', showA = True\<rparr>,
       \<lparr>a = Str ''x'', b = Str ''x'', showA = True\<rparr>,
       \<lparr>a = Str ''x'', b = Str ''x'', showA = True\<rparr>]"
  have h: "\<forall>c\<in>set ?cards. visible c = Str ''x''" by (simp add: visible_def)
  have m: "map visible ?cards = [Str ''x'', Str ''x'', Str ''x'']" by (simp add: visible_def)
  from single_image_stable[OF h, of 4 "\<lambda>k n. int (k mod n)" 0] m show ?thesis by auto
qed

section \<open>Upper-case and camel-case timing keys\<close>

text \<open>
  C10. For every keyed configuration \<open>kvs\<close> the timing read is the value of the
  upper-case key when that key is present and not \<^verbatim>\<open>null\<close>, and the value of the
  camel-case key only when the upper-case key is absent or \<^verbatim>\<open>null\<close>. For the
  interval (conjuncts 1 to 4) and for the fade (5 to 8):
  \<^item> an upper-case value that is present, not \<^verbatim>\<open>null\<close>, and converts to a finite
    positive number is the result, whatever the camel-case key holds (provided the
    conversion of the other timing does not throw, which resets both);
  \<^item> an upper-case value that is present, not \<^verbatim>\<open>null\<close>, and does not convert to a
    finite positive number gives the default, whatever the camel-case key holds;
  \<^item> with the upper-case key absent or \<^verbatim>\<open>null\<close>, a camel-case value that converts
    to a finite positive number is the result (under the same proviso);
  \<^item> with the upper-case key absent or \<^verbatim>\<open>null\<close>, a camel-case value that does not
    gives the default.
  The last four conjuncts say the same from the outside: with the upper-case key present
  and not \<^verbatim>\<open>null\<close> the camel-case value does not matter to the result at all, and with
  it absent or \<^verbatim>\<open>null\<close> the camel-case value acts exactly as that value under the
  upper-case key would.
\<close>

theorem upper_case_key_precedence:
  "(\<forall>v x. map_of kvs ''INTERVAL_MS'' = Some v \<and> v \<noteq> JNull \<and>
        Number s2n n2s (Some v) = Inr x \<and> isFinite x \<and> gt0 x \<and>
        (\<exists>y. Number s2n n2s (nullish (map_of kvs ''FADE_MS'') (map_of kvs ''fadeMs'')) = Inr y) \<longrightarrow>
        intervalMs (load_config s2n n2s dI dF (Inr (JObj kvs))) = x) \<and>
   (\<forall>v. map_of kvs ''INTERVAL_MS'' = Some v \<and> v \<noteq> JNull \<longrightarrow>
        (\<forall>x. Number s2n n2s (Some v) = Inr x \<longrightarrow> \<not> (isFinite x \<and> gt0 x)) \<longrightarrow>
        intervalMs (load_config s2n n2s dI dF (Inr (JObj kvs))) = dI) \<and>
   (\<forall>x. (map_of kvs ''INTERVAL_MS'' = None \<or> map_of kvs ''INTERVAL_MS'' = Some JNull) \<and>
        Number s2n n2s (map_of kvs ''intervalMs'') = Inr x \<and> isFinite x \<and> gt0 x \<and>
        (\<exists>y. Number s2n n2s (nullish (map_of kvs ''FADE_MS'') (map_of kvs ''fadeMs'')) = Inr y) \<longrightarrow>
        intervalMs (load_config s2n n2s dI dF (Inr (JObj kvs))) = x) \<and>
   ((map_of kvs ''INTERVAL_MS'' = None \<or> map_of kvs ''INTERVAL_MS'' = Some JNull) \<and>
        (\<forall>x. Number s2n n2s (map_of kvs ''intervalMs'') = Inr x \<longrightarrow> \<not> (isFinite x \<and> gt0 x)) \<longrightarrow>
        intervalMs (load_config s2n n2s dI dF (Inr (JObj kvs))) = dI) \<and>
   (\<forall>v x. map_of kvs ''FADE_MS'' = Some v \<and> v \<noteq> JNull \<and>
        Number s2n n2s (Some v) = Inr x \<and> isFinite x \<and> gt0 x \<and>
        (\<exists>y. Number s2n n2s (nullish (map_of kvs ''INTERVAL_MS'') (map_of kvs ''intervalMs'')) = Inr y) \<longrightarrow>
        fadeMs (load_config s2n n2s dI dF (Inr (JObj kvs))) = x) \<and>
   (\<forall>v. map_of kvs ''FADE_MS'' = Some v \<and> v \<noteq> JNull \<longrightarrow>
        (\<forall>x. Number s2n n2s (Some v) = Inr x \<longrightarrow> \<not> (isFinite x \<and> gt0 x)) \<longrightarrow>
        fadeMs (load_config s2n n2s dI dF (Inr (JObj kvs))) = dF) \<and>
   (\<forall>x. (map_of kvs ''FADE_MS'' = None \<or> map_of kvs ''FADE_MS'' = Some JNull) \<and>
        Number s2n n2s (map_of kvs ''fadeMs'') = Inr x \<and> isFinite x \<and> gt0 x \<and>
        (\<exists>y. Number s2n n2s (nullish (map_of kvs ''INTERVAL_MS'') (map_of kvs ''intervalMs'')) = Inr y) \<longrightarrow>
        fadeMs (load_config s2n n2s dI dF (Inr (JObj kvs))) = x) \<and>
   ((map_of kvs ''FADE_MS'' = None \<or> map_of kvs ''FADE_MS'' = Some JNull) \<and>
        (\<forall>x. Number s2n n2s (map_of kvs ''fadeMs'') = Inr x \<longrightarrow> \<not> (isFinite x \<and> gt0 x)) \<longrightarrow>
        fadeMs (load_config s2n n2s dI dF (Inr (JObj kvs))) = dF) \<and>
   (\<forall>v w. map_of kvs ''INTERVAL_MS'' = Some v \<and> v \<noteq> JNull \<longrightarrow>
        load_config s2n n2s dI dF (Inr (JObj ((''intervalMs'', w) # kvs))) =
        load_config s2n n2s dI dF (Inr (JObj kvs))) \<and>
   (\<forall>v w. map_of kvs ''FADE_MS'' = Some v \<and> v \<noteq> JNull \<longrightarrow>
        load_config s2n n2s dI dF (Inr (JObj ((''fadeMs'', w) # kvs))) =
        load_config s2n n2s dI dF (Inr (JObj kvs))) \<and>
   (\<forall>w. (map_of kvs ''INTERVAL_MS'' = None \<or> map_of kvs ''INTERVAL_MS'' = Some JNull) \<and>
        map_of kvs ''intervalMs'' = Some w \<longrightarrow>
        load_config s2n n2s dI dF (Inr (JObj ((''INTERVAL_MS'', w) # kvs))) =
        load_config s2n n2s dI dF (Inr (JObj kvs))) \<and>
   (\<forall>w. (map_of kvs ''FADE_MS'' = None \<or> map_of kvs ''FADE_MS'' = Some JNull) \<and>
        map_of kvs ''fadeMs'' = Some w \<longrightarrow>
        load_config s2n n2s dI dF (Inr (JObj ((''FADE_MS'', w) # kvs))) =
        load_config s2n n2s dI dF (Inr (JObj kvs)))"
proof (intro conjI allI impI)
  fix v x
  assume "map_of kvs ''INTERVAL_MS'' = Some v \<and> v \<noteq> JNull \<and>
        Number s2n n2s (Some v) = Inr x \<and> isFinite x \<and> gt0 x \<and>
        (\<exists>y. Number s2n n2s (nullish (map_of kvs ''FADE_MS'') (map_of kvs ''fadeMs'')) = Inr y)"
  then show "intervalMs (load_config s2n n2s dI dF (Inr (JObj kvs))) = x"
    by (auto simp: load_config_def on_data_def nullish_present)
next
  fix v
  assume "map_of kvs ''INTERVAL_MS'' = Some v \<and> v \<noteq> JNull"
    and "\<forall>x. Number s2n n2s (Some v) = Inr x \<longrightarrow> \<not> (isFinite x \<and> gt0 x)"
  then show "intervalMs (load_config s2n n2s dI dF (Inr (JObj kvs))) = dI"
    by (intro load_config_obj_interval_default) (simp add: nullish_present)
next
  fix x
  assume h: "(map_of kvs ''INTERVAL_MS'' = None \<or> map_of kvs ''INTERVAL_MS'' = Some JNull) \<and>
        Number s2n n2s (map_of kvs ''intervalMs'') = Inr x \<and> isFinite x \<and> gt0 x \<and>
        (\<exists>y. Number s2n n2s (nullish (map_of kvs ''FADE_MS'') (map_of kvs ''fadeMs'')) = Inr y)"
  then have "nullish (map_of kvs ''INTERVAL_MS'') (map_of kvs ''intervalMs'') = map_of kvs ''intervalMs''"
    by (intro nullish_absent) simp
  with h show "intervalMs (load_config s2n n2s dI dF (Inr (JObj kvs))) = x"
    by (auto simp: load_config_def on_data_def)
next
  assume h: "(map_of kvs ''INTERVAL_MS'' = None \<or> map_of kvs ''INTERVAL_MS'' = Some JNull) \<and>
        (\<forall>x. Number s2n n2s (map_of kvs ''intervalMs'') = Inr x \<longrightarrow> \<not> (isFinite x \<and> gt0 x))"
  then have "nullish (map_of kvs ''INTERVAL_MS'') (map_of kvs ''intervalMs'') = map_of kvs ''intervalMs''"
    by (intro nullish_absent) simp
  with h show "intervalMs (load_config s2n n2s dI dF (Inr (JObj kvs))) = dI"
    by (intro load_config_obj_interval_default) simp
next
  fix v x
  assume "map_of kvs ''FADE_MS'' = Some v \<and> v \<noteq> JNull \<and>
        Number s2n n2s (Some v) = Inr x \<and> isFinite x \<and> gt0 x \<and>
        (\<exists>y. Number s2n n2s (nullish (map_of kvs ''INTERVAL_MS'') (map_of kvs ''intervalMs'')) = Inr y)"
  then show "fadeMs (load_config s2n n2s dI dF (Inr (JObj kvs))) = x"
    by (auto simp: load_config_def on_data_def nullish_present)
next
  fix v
  assume "map_of kvs ''FADE_MS'' = Some v \<and> v \<noteq> JNull"
    and "\<forall>x. Number s2n n2s (Some v) = Inr x \<longrightarrow> \<not> (isFinite x \<and> gt0 x)"
  then show "fadeMs (load_config s2n n2s dI dF (Inr (JObj kvs))) = dF"
    by (intro load_config_obj_fade_default) (simp add: nullish_present)
next
  fix x
  assume h: "(map_of kvs ''FADE_MS'' = None \<or> map_of kvs ''FADE_MS'' = Some JNull) \<and>
        Number s2n n2s (map_of kvs ''fadeMs'') = Inr x \<and> isFinite x \<and> gt0 x \<and>
        (\<exists>y. Number s2n n2s (nullish (map_of kvs ''INTERVAL_MS'') (map_of kvs ''intervalMs'')) = Inr y)"
  then have "nullish (map_of kvs ''FADE_MS'') (map_of kvs ''fadeMs'') = map_of kvs ''fadeMs''"
    by (intro nullish_absent) simp
  with h show "fadeMs (load_config s2n n2s dI dF (Inr (JObj kvs))) = x"
    by (auto simp: load_config_def on_data_def)
next
  assume h: "(map_of kvs ''FADE_MS'' = None \<or> map_of kvs ''FADE_MS'' = Some JNull) \<and>
        (\<forall>x. Number s2n n2s (map_of kvs ''fadeMs'') = Inr x \<longrightarrow> \<not> (isFinite x \<and> gt0 x))"
  then have "nullish (map_of kvs ''FADE_MS'') (map_of kvs ''fadeMs'') = map_of kvs ''fadeMs''"
    by (intro nullish_absent) simp
  with h show "fadeMs (load_config s2n n2s dI dF (Inr (JObj kvs))) = dF"
    by (intro load_config_obj_fade_default) simp
next
  fix v w
  assume "map_of kvs ''INTERVAL_MS'' = Some v \<and> v \<noteq> JNull"
  then show "load_config s2n n2s dI dF (Inr (JObj ((''intervalMs'', w) # kvs))) =
        load_config s2n n2s dI dF (Inr (JObj kvs))"
    by (simp add: load_config_def on_data_def nullish_present cong: sum.case_cong)
next
  fix v w
  assume "map_of kvs ''FADE_MS'' = Some v \<and> v \<noteq> JNull"
  then show "load_config s2n n2s dI dF (Inr (JObj ((''fadeMs'', w) # kvs))) =
        load_config s2n n2s dI dF (Inr (JObj kvs))"
    by (simp add: load_config_def on_data_def nullish_present cong: sum.case_cong)
next
  fix w
  assume h: "(map_of kvs ''INTERVAL_MS'' = None \<or> map_of kvs ''INTERVAL_MS'' = Some JNull) \<and>
        map_of kvs ''intervalMs'' = Some w"
  then have 1: "nullish (map_of kvs ''INTERVAL_MS'') (Some w) = Some w" by (simp add: nullish_absent)
  have 2: "nullish (Some w) (Some w) = Some w" by (cases w) (simp_all add: nullish_def)
  from h 1 2 show "load_config s2n n2s dI dF (Inr (JObj ((''INTERVAL_MS'', w) # kvs))) =
        load_config s2n n2s dI dF (Inr (JObj kvs))"
    by (simp add: load_config_def on_data_def cong: sum.case_cong)
next
  fix w
  assume h: "(map_of kvs ''FADE_MS'' = None \<or> map_of kvs ''FADE_MS'' = Some JNull) \<and>
        map_of kvs ''fadeMs'' = Some w"
  then have 1: "nullish (map_of kvs ''FADE_MS'') (Some w) = Some w" by (simp add: nullish_absent)
  have 2: "nullish (Some w) (Some w) = Some w" by (cases w) (simp_all add: nullish_def)
  from h 1 2 show "load_config s2n n2s dI dF (Inr (JObj ((''FADE_MS'', w) # kvs))) =
        load_config s2n n2s dI dF (Inr (JObj kvs))"
    by (simp add: load_config_def on_data_def cong: sum.case_cong)
qed

text \<open>
  The theorem at three configurations: \<^verbatim>\<open>INTERVAL_MS = 250\<close> beside
  \<^verbatim>\<open>intervalMs = 900\<close> gives 250; \<^verbatim>\<open>INTERVAL_MS = null\<close> beside
  \<^verbatim>\<open>intervalMs = 900\<close> gives 900; and \<^verbatim>\<open>INTERVAL_MS = 0\<close> beside
  \<^verbatim>\<open>intervalMs = 250\<close> gives the default 5000.
\<close>

theorem upper_case_key_precedence_witness:
  "intervalMs (load_config (\<lambda>s. NaN) (\<lambda>n. ''0'') (Finite 5000) (Finite 3000)
      (Inr (JObj [(''INTERVAL_MS'', JNum (Finite 250)), (''intervalMs'', JNum (Finite 900))])))
     = Finite 250 \<and>
   intervalMs (load_config (\<lambda>s. NaN) (\<lambda>n. ''0'') (Finite 5000) (Finite 3000)
      (Inr (JObj [(''INTERVAL_MS'', JNull), (''intervalMs'', JNum (Finite 900))])))
     = Finite 900 \<and>
   intervalMs (load_config (\<lambda>s. NaN) (\<lambda>n. ''0'') (Finite 5000) (Finite 3000)
      (Inr (JObj [(''INTERVAL_MS'', JNum (Finite 0)), (''intervalMs'', JNum (Finite 250))])))
     = Finite 5000"
proof -
  let ?k1 = "[(''INTERVAL_MS'', JNum (Finite 250)), (''intervalMs'', JNum (Finite 900))]"
  let ?k2 = "[(''INTERVAL_MS'', JNull), (''intervalMs'', JNum (Finite 900))]"
  let ?k3 = "[(''INTERVAL_MS'', JNum (Finite 0)), (''intervalMs'', JNum (Finite 250))]"
  note p1 = upper_case_key_precedence[of ?k1 "\<lambda>s. NaN" "\<lambda>n. ''0''" "Finite 5000" "Finite 3000"]
  note p2 = upper_case_key_precedence[of ?k2 "\<lambda>s. NaN" "\<lambda>n. ''0''" "Finite 5000" "Finite 3000"]
  note p3 = upper_case_key_precedence[of ?k3 "\<lambda>s. NaN" "\<lambda>n. ''0''" "Finite 5000" "Finite 3000"]
  have h1: "map_of ?k1 ''INTERVAL_MS'' = Some (JNum (Finite 250)) \<and> JNum (Finite 250) \<noteq> JNull \<and>
        Number (\<lambda>s. NaN) (\<lambda>n. ''0'') (Some (JNum (Finite 250))) = Inr (Finite 250) \<and>
        isFinite (Finite 250) \<and> gt0 (Finite 250) \<and>
        (\<exists>y. Number (\<lambda>s. NaN) (\<lambda>n. ''0'') (nullish (map_of ?k1 ''FADE_MS'') (map_of ?k1 ''fadeMs'')) = Inr y)"
    by (simp add: Number_def nullish_def)
  have h2: "(map_of ?k2 ''INTERVAL_MS'' = None \<or> map_of ?k2 ''INTERVAL_MS'' = Some JNull) \<and>
        Number (\<lambda>s. NaN) (\<lambda>n. ''0'') (map_of ?k2 ''intervalMs'') = Inr (Finite 900) \<and>
        isFinite (Finite 900) \<and> gt0 (Finite 900) \<and>
        (\<exists>y. Number (\<lambda>s. NaN) (\<lambda>n. ''0'') (nullish (map_of ?k2 ''FADE_MS'') (map_of ?k2 ''fadeMs'')) = Inr y)"
    by (simp add: Number_def nullish_def)
  have h3: "map_of ?k3 ''INTERVAL_MS'' = Some (JNum (Finite 0)) \<and> JNum (Finite 0) \<noteq> JNull" by simp
  have h3': "\<forall>x. Number (\<lambda>s. NaN) (\<lambda>n. ''0'') (Some (JNum (Finite 0))) = Inr x \<longrightarrow> \<not> (isFinite x \<and> gt0 x)"
    by (simp add: Number_def)
  from p1[THEN conjunct1, THEN spec, THEN spec, THEN mp, OF h1]
    p2[THEN conjunct2, THEN conjunct2, THEN conjunct1, THEN spec, THEN mp, OF h2]
    p3[THEN conjunct2, THEN conjunct1, THEN spec, THEN mp, THEN mp, OF h3 h3']
  show ?thesis by (intro conjI)
qed

end
